theory Spec2Isabelle
  imports Main "HOL-Library.Extended_Nat"
begin

section \<open>Faults\<close>

text \<open>
  A JavaScript \<open>TypeError\<close> (reading a property of \<open>undefined\<close>, as an out-of-range
  array read followed by a field access does) is a value of the model.
\<close>

datatype fault = TypeError

section \<open>Cycle detector (MazeSolver.tsx, second component)\<close>

datatype dfs_color = white | gray | black

text \<open>The canvas coordinates of a node only serve drawing and hit testing; they are left out.\<close>

record CycleNode =
  node_id :: nat
  node_label :: string
  node_color :: dfs_color

record CycleEdge =
  edge_from :: nat
  edge_to :: nat
  isInCycle :: bool

record CycleDetector =
  cd_nodes :: "CycleNode list"
  cd_edges :: "CycleEdge list"
  cd_isDirected :: bool
  cd_selectedNode :: "nat option"
  cd_hasCycle :: bool
  cd_cycleEdges :: "nat set"
  cd_isRunning :: bool
  cd_gameStarted :: bool
  cd_isMobile :: bool

definition generateNodes :: "bool \<Rightarrow> CycleDetector" where
  "generateNodes isMobile =
     (let nodeCount = (if isMobile then 4 else 5);
          labels = [''A'', ''B'', ''C'', ''D'', ''E'']
      in \<lparr> cd_nodes = map (\<lambda>i. \<lparr> node_id = i, node_label = labels ! i, node_color = white \<rparr>)
                          [0 ..< nodeCount],
           cd_edges = [],
           cd_isDirected = True,
           cd_selectedNode = None,
           cd_hasCycle = False,
           cd_cycleEdges = {},
           cd_isRunning = False,
           cd_gameStarted = False,
           cd_isMobile = isMobile \<rparr>)"

text \<open>
  \<open>handleCanvasClick\<close>: the argument is the result of \<open>nodes.find\<close> on the click position,
  the id of the node hit or nothing.
\<close>

definition edgeExists :: "CycleDetector \<Rightarrow> nat \<Rightarrow> nat \<Rightarrow> bool" where
  "edgeExists s sel clicked =
     list_ex (\<lambda>edge. (edge_from edge = sel \<and> edge_to edge = clicked) \<or>
                     (\<not> cd_isDirected s \<and> edge_from edge = clicked \<and> edge_to edge = sel))
             (cd_edges s)"

definition cd_handleCanvasClick :: "CycleDetector \<Rightarrow> nat option \<Rightarrow> CycleDetector" where
  "cd_handleCanvasClick s clickedNode =
     (if cd_isRunning s then s
      else case clickedNode of
        None \<Rightarrow> s
      | Some clicked \<Rightarrow>
          (let s1 = s\<lparr> cd_gameStarted := True \<rparr>
           in case cd_selectedNode s of
                None \<Rightarrow> s1\<lparr> cd_selectedNode := Some clicked \<rparr>
              | Some sel \<Rightarrow>
                  if sel = clicked then s1\<lparr> cd_selectedNode := None \<rparr>
                  else if \<not> edgeExists s sel clicked
                  then s1\<lparr> cd_edges := cd_edges s @
                                [\<lparr> edge_from = sel, edge_to = clicked, isInCycle = False \<rparr>],
                           cd_selectedNode := None \<rparr>
                  else s1\<lparr> cd_selectedNode := None \<rparr>))"

definition clearGraph :: "CycleDetector \<Rightarrow> CycleDetector" where
  "clearGraph s =
     s\<lparr> cd_edges := [], cd_selectedNode := None, cd_hasCycle := False, cd_cycleEdges := {},
        cd_nodes := map (\<lambda>node. node\<lparr> node_color := white \<rparr>) (cd_nodes s) \<rparr>"

definition toggleGraphType :: "CycleDetector \<Rightarrow> CycleDetector" where
  "toggleGraphType s = clearGraph (s\<lparr> cd_isDirected := \<not> cd_isDirected s \<rparr>)"

text \<open>The states a user reaches from the initial graph by clicking.\<close>

inductive cd_reachable :: "CycleDetector \<Rightarrow> bool" where
  cd_init: "cd_reachable (generateNodes isMobile)"
| cd_click: "cd_reachable s \<Longrightarrow> cd_reachable (cd_handleCanvasClick s clickedNode)"
| cd_clear: "cd_reachable s \<Longrightarrow> cd_reachable (clearGraph s)"
| cd_toggle: "cd_reachable s \<Longrightarrow> cd_reachable (toggleGraphType s)"

text \<open>
  Two edges are the same edge of the graph when they join the same ordered pair, or, in an
  undirected graph, the same pair in either orientation.
\<close>

definition sameEdge :: "bool \<Rightarrow> CycleEdge \<Rightarrow> CycleEdge \<Rightarrow> bool" where
  "sameEdge directed e e' \<longleftrightarrow>
     (edge_from e = edge_from e' \<and> edge_to e = edge_to e') \<or>
     (\<not> directed \<and> edge_from e = edge_to e' \<and> edge_to e = edge_from e')"

fun noDuplicateEdge :: "bool \<Rightarrow> CycleEdge list \<Rightarrow> bool" where
  "noDuplicateEdge directed [] = True"
| "noDuplicateEdge directed (e # es) =
     (\<not> list_ex (sameEdge directed e) es \<and> noDuplicateEdge directed es)"

subsection \<open>The search\<close>

text \<open>
  \<open>adjacencyList\<close> and \<open>edgeMap\<close> as \<open>edges.forEach\<close> builds them. The keys of \<open>edgeMap\<close>
  are the strings \<open>from-to\<close>, which determine the pair of ids.
\<close>

fun buildGraph ::
  "bool \<Rightarrow> CycleEdge list \<Rightarrow> nat \<Rightarrow> nat list list \<Rightarrow> (nat \<times> nat \<rightharpoonup> nat) \<Rightarrow>
   fault + (nat list list \<times> (nat \<times> nat \<rightharpoonup> nat))" where
  "buildGraph directed [] index adj em = Inr (adj, em)"
| "buildGraph directed (edge # rest) index adj em =
     (if edge_from edge \<ge> length adj then Inl TypeError
      else let adj1 = adj[edge_from edge := adj ! edge_from edge @ [edge_to edge]];
               em1 = em((edge_from edge, edge_to edge) \<mapsto> index)
           in if directed then buildGraph directed rest (Suc index) adj1 em1
              else if edge_to edge \<ge> length adj then Inl TypeError
              else buildGraph directed rest (Suc index)
                     (adj1[edge_to edge := adj1 ! edge_to edge @ [edge_from edge]])
                     (em1((edge_to edge, edge_from edge) \<mapsto> index)))"

record DfsState =
  newNodes :: "CycleNode list"
  visited :: "nat set"
  recursionStack :: "nat set"
  cycleEdgeSet :: "nat set"
  foundCycle :: bool

definition paint :: "dfs_color \<Rightarrow> nat \<Rightarrow> DfsState \<Rightarrow> DfsState" where
  "paint c nodeId st =
     st\<lparr> newNodes := (newNodes st)[nodeId := (newNodes st ! nodeId)\<lparr> node_color := c \<rparr>] \<rparr>"

text \<open>\<open>a || b\<close> on two lookups: the index \<open>0\<close> is falsy, as \<open>undefined\<close> is.\<close>

definition lookupEither :: "(nat \<times> nat \<rightharpoonup> nat) \<Rightarrow> nat \<times> nat \<Rightarrow> nat \<times> nat \<Rightarrow> nat option" where
  "lookupEither em k k' =
     (case em k of None \<Rightarrow> em k' | Some i \<Rightarrow> if i = 0 then em k' else Some i)"

definition flagEdge :: "nat option \<Rightarrow> DfsState \<Rightarrow> DfsState" where
  "flagEdge edgeIndex st =
     (case edgeIndex of
        None \<Rightarrow> st\<lparr> foundCycle := True \<rparr>
      | Some i \<Rightarrow> st\<lparr> cycleEdgeSet := insert i (cycleEdgeSet st), foundCycle := True \<rparr>)"

text \<open>
  The recursive \<open>dfs\<close>. The first argument bounds the depth of the recursion: \<open>None\<close> is a
  search cut off by the bound, not a result of the program.
\<close>

fun dfs ::
    "nat \<Rightarrow> bool \<Rightarrow> nat list list \<Rightarrow> (nat \<times> nat \<rightharpoonup> nat) \<Rightarrow> nat \<Rightarrow> int \<Rightarrow> DfsState \<Rightarrow>
     (fault + bool \<times> DfsState) option"
  and dfs_for ::
    "nat \<Rightarrow> bool \<Rightarrow> nat list list \<Rightarrow> (nat \<times> nat \<rightharpoonup> nat) \<Rightarrow> nat \<Rightarrow> int \<Rightarrow> nat list \<Rightarrow>
     DfsState \<Rightarrow> (fault + bool \<times> DfsState) option" where
  "dfs 0 directed adj em nodeId parent st = None"
| "dfs (Suc fuel) directed adj em nodeId parent st =
     (if nodeId \<ge> length (newNodes st) \<or> nodeId \<ge> length adj then Some (Inl TypeError)
      else dfs_for fuel directed adj em nodeId parent (adj ! nodeId)
             ((paint gray nodeId st)\<lparr> visited := insert nodeId (visited st),
                                       recursionStack := insert nodeId (recursionStack st) \<rparr>))"
| "dfs_for fuel directed adj em nodeId parent [] st =
     Some (Inr (False, (paint black nodeId st)\<lparr> recursionStack := recursionStack st - {nodeId} \<rparr>))"
| "dfs_for fuel directed adj em nodeId parent (neighbor # rest) st =
     (if directed then
        (if neighbor \<in> recursionStack st
         then Some (Inr (True, flagEdge (em (nodeId, neighbor)) st))
         else if neighbor \<notin> visited st
         then (case dfs fuel directed adj em neighbor (int nodeId) st of
                 None \<Rightarrow> None
               | Some (Inl e) \<Rightarrow> Some (Inl e)
               | Some (Inr (found, st')) \<Rightarrow>
                   if found then Some (Inr (True, st'))
                   else dfs_for fuel directed adj em nodeId parent rest st')
         else dfs_for fuel directed adj em nodeId parent rest st)
      else
        (if int neighbor \<noteq> parent then
           (if neighbor \<in> visited st
            then Some (Inr (True,
                   flagEdge (lookupEither em (nodeId, neighbor) (neighbor, nodeId)) st))
            else (case dfs fuel directed adj em neighbor (int nodeId) st of
                    None \<Rightarrow> None
                  | Some (Inl e) \<Rightarrow> Some (Inl e)
                  | Some (Inr (found, st')) \<Rightarrow>
                      if found then Some (Inr (True, st'))
                      else dfs_for fuel directed adj em nodeId parent rest st'))
         else dfs_for fuel directed adj em nodeId parent rest st))"

text \<open>The loop over all start nodes; it stops at the first search that finds a cycle.\<close>

fun detect_roots ::
  "nat \<Rightarrow> bool \<Rightarrow> nat list list \<Rightarrow> (nat \<times> nat \<rightharpoonup> nat) \<Rightarrow> nat list \<Rightarrow> DfsState \<Rightarrow>
   (fault + DfsState) option" where
  "detect_roots fuel directed adj em [] st = Some (Inr st)"
| "detect_roots fuel directed adj em (i # rest) st =
     (if i \<notin> visited st
      then (case dfs fuel directed adj em i (- 1) st of
              None \<Rightarrow> None
            | Some (Inl e) \<Rightarrow> Some (Inl e)
            | Some (Inr (found, st')) \<Rightarrow>
                if found then Some (Inr st') else detect_roots fuel directed adj em rest st')
      else detect_roots fuel directed adj em rest st)"

definition detectCycle :: "nat \<Rightarrow> CycleDetector \<Rightarrow> (fault + CycleDetector) option" where
  "detectCycle fuel s =
     (if cd_edges s = [] then Some (Inr s)
      else
        let st0 = \<lparr> newNodes = map (\<lambda>node. node\<lparr> node_color := white \<rparr>) (cd_nodes s),
                    visited = {}, recursionStack = {}, cycleEdgeSet = {}, foundCycle = False \<rparr>
        in case buildGraph (cd_isDirected s) (cd_edges s) 0
                  (replicate (length (cd_nodes s)) []) Map.empty of
             Inl e \<Rightarrow> Some (Inl e)
           | Inr (adj, em) \<Rightarrow>
               (case detect_roots fuel (cd_isDirected s) adj em [0 ..< length (cd_nodes s)] st0 of
                  None \<Rightarrow> None
                | Some (Inl e) \<Rightarrow> Some (Inl e)
                | Some (Inr st) \<Rightarrow>
                    Some (Inr (s\<lparr> cd_nodes := newNodes st,
                                  cd_hasCycle := foundCycle st,
                                  cd_cycleEdges := cycleEdgeSet st,
                                  cd_isRunning := False \<rparr>))))"

text \<open>The graph a user draws by clicking the listed pairs of nodes in turn.\<close>

definition drawEdges :: "CycleDetector \<Rightarrow> (nat \<times> nat) list \<Rightarrow> CycleDetector" where
  "drawEdges s pairs =
     fold (\<lambda>(a, b) s. cd_handleCanvasClick (cd_handleCanvasClick s (Some a)) (Some b)) pairs s"

section \<open>Grids of cells (types/Game.ts, the two grid games)\<close>

text \<open>
  A position is a pair \<open>(x, y)\<close>: column and row. A grid is the array of its rows, so the
  cell at \<open>(x, y)\<close> is \<open>grid[y][x]\<close>. A reference to a cell object of a grid (the entries of
  \<open>unvisited\<close>, the \<open>previous\<close> field) is the position of that cell in the grid.
\<close>

type_synonym Position = "nat \<times> nat"

record MazeCell =
  cell_x :: nat
  cell_y :: nat
  isWall :: bool
  isVisited :: bool
  isPath :: bool
  isStart :: bool
  isEnd :: bool

record GridCell = MazeCell +
  distance :: enat
  weight :: nat
  previous :: "Position option"

definition inGrid :: "'c list list \<Rightarrow> Position \<Rightarrow> bool" where
  "inGrid g p \<longleftrightarrow> snd p < length g \<and> fst p < length (g ! snd p)"

definition cellAt :: "'c list list \<Rightarrow> Position \<Rightarrow> 'c" where
  "cellAt g p = g ! snd p ! fst p"

definition updateCell :: "('c \<Rightarrow> 'c) \<Rightarrow> Position \<Rightarrow> 'c list list \<Rightarrow> 'c list list" where
  "updateCell f p g = g[snd p := (g ! snd p)[fst p := f (g ! snd p ! fst p)]]"

text \<open>The four moves, in the order of the source: up, right, down, left.\<close>

definition directions :: "(int \<times> int) list" where
  "directions = [(0, - 1), (1, 0), (0, 1), (- 1, 0)]"

section \<open>Path finder: Dijkstra on a weighted grid (part\_001)\<close>

datatype draw_mode = DrawWall | DrawWeight

record PathFinder =
  pf_grid :: "GridCell list list"
  pf_isRunning :: bool
  pf_drawMode :: draw_mode
  pf_visitedCount :: nat
  pf_pathLength :: nat
  pf_totalDistance :: nat
  pf_gameCompleted :: bool
  pf_showInstructions :: bool
  pf_isMobile :: bool

definition gridWidth :: "bool \<Rightarrow> nat" where
  "gridWidth isMobile = (if isMobile then 16 else 20)"

definition gridHeight :: "bool \<Rightarrow> nat" where
  "gridHeight isMobile = (if isMobile then 10 else 12)"

text \<open>
  \<open>initializeGrid\<close>. The weights are drawn at random (1, or 2 to 6); the draw is the
  argument \<open>randomWeight\<close>, the weight of each position.
\<close>

definition initialCell :: "bool \<Rightarrow> (nat \<Rightarrow> nat \<Rightarrow> nat) \<Rightarrow> nat \<Rightarrow> nat \<Rightarrow> GridCell" where
  "initialCell isMobile randomWeight y x =
     \<lparr> cell_x = x, cell_y = y, isWall = False, isVisited = False, isPath = False,
       isStart = (x = 2 \<and> y = gridHeight isMobile div 2),
       isEnd = (x = gridWidth isMobile - 3 \<and> y = gridHeight isMobile div 2),
       distance = \<infinity>, weight = randomWeight x y, previous = None \<rparr>"

definition initializeGrid :: "bool \<Rightarrow> (nat \<Rightarrow> nat \<Rightarrow> nat) \<Rightarrow> PathFinder" where
  "initializeGrid isMobile randomWeight =
     \<lparr> pf_grid = map (\<lambda>y. map (initialCell isMobile randomWeight y) [0 ..< gridWidth isMobile])
                     [0 ..< gridHeight isMobile],
       pf_isRunning = False,
       pf_drawMode = DrawWall,
       pf_visitedCount = 0,
       pf_pathLength = 0,
       pf_totalDistance = 0,
       pf_gameCompleted = False,
       pf_showInstructions = True,
       pf_isMobile = isMobile \<rparr>"

text \<open>
  \<open>handleCanvasClick\<close>: \<open>x\<close> and \<open>y\<close> are the cell coordinates computed from the click,
  \<open>Math.floor\<close> of a pixel offset over the cell size, which may lie outside the grid.
\<close>

definition editCell :: "draw_mode \<Rightarrow> GridCell \<Rightarrow> GridCell" where
  "editCell drawMode cell =
     (if \<not> isStart cell \<and> \<not> isEnd cell then
        (case drawMode of
           DrawWall \<Rightarrow>
             (let cell1 = cell\<lparr> isWall := \<not> isWall cell \<rparr>
              in if isWall cell1 then cell1\<lparr> isVisited := False, isPath := False \<rparr> else cell1)
         | DrawWeight \<Rightarrow>
             if \<not> isWall cell then cell\<lparr> weight := (if weight cell = 1 then 5 else 1) \<rparr>
             else cell)
      else cell)"

definition pf_handleCanvasClick :: "PathFinder \<Rightarrow> int \<Rightarrow> int \<Rightarrow> fault + PathFinder" where
  "pf_handleCanvasClick s x y =
     (if pf_isRunning s then Inr s
      else if 0 \<le> x \<and> x < int (gridWidth (pf_isMobile s)) \<and>
              0 \<le> y \<and> y < int (gridHeight (pf_isMobile s))
      then (if \<not> inGrid (pf_grid s) (nat x, nat y) then Inl TypeError
            else Inr (s\<lparr> pf_grid := updateCell (editCell (pf_drawMode s)) (nat x, nat y) (pf_grid s),
                         pf_showInstructions := False \<rparr>))
      else Inr s)"

definition setDrawMode :: "draw_mode \<Rightarrow> PathFinder \<Rightarrow> PathFinder" where
  "setDrawMode m s = s\<lparr> pf_drawMode := m \<rparr>"

subsection \<open>The run\<close>

definition resetCell :: "GridCell \<Rightarrow> GridCell" where
  "resetCell cell =
     cell\<lparr> isVisited := False, isPath := False,
           distance := (if isStart cell then 0 else \<infinity>), previous := None \<rparr>"

text \<open>The search for the start cell, row by row over \<open>gridHeight\<close> rows of \<open>gridWidth\<close> cells.\<close>

fun findStart :: "GridCell list list \<Rightarrow> Position list \<Rightarrow> fault + Position option" where
  "findStart g [] = Inr None"
| "findStart g (p # ps) =
     (if \<not> inGrid g p then Inl TypeError
      else if isStart (cellAt g p) then Inr (Some p)
      else findStart g ps)"

definition rowMajor :: "nat \<Rightarrow> nat \<Rightarrow> Position list" where
  "rowMajor w h = concat (map (\<lambda>y. map (\<lambda>x. (x, y)) [0 ..< w]) [0 ..< h])"

text \<open>\<open>unvisited\<close>: the cells that are not walls, in the order of the two \<open>forEach\<close>.\<close>

definition nonWallCells :: "GridCell list list \<Rightarrow> Position list" where
  "nonWallCells g =
     concat (map (\<lambda>y. map (\<lambda>x. (x, y)) (filter (\<lambda>x. \<not> isWall (g ! y ! x)) [0 ..< length (g ! y)]))
                 [0 ..< length g])"

text \<open>
  \<open>unvisited.sort((a, b) => a.distance - b.distance)\<close>. \<open>Array.prototype.sort\<close> is stable
  (ECMAScript 2019), and the comparator orders the cells by distance, two cells at distance
  \<open>Infinity\<close> comparing equal (their difference is \<open>NaN\<close>, read as 0): a stable sort by
  distance, which is what \<open>sort_key\<close> is.
\<close>

definition sortByDistance :: "GridCell list list \<Rightarrow> Position list \<Rightarrow> Position list" where
  "sortByDistance g unvisited = sort_key (\<lambda>p. distance (cellAt g p)) unvisited"

definition relax ::
  "nat \<Rightarrow> nat \<Rightarrow> Position \<Rightarrow> int \<times> int \<Rightarrow> GridCell list list \<Rightarrow> fault + GridCell list list" where
  "relax gw gh current dir g =
     (let newX = int (cell_x (cellAt g current)) + fst dir;
          newY = int (cell_y (cellAt g current)) + snd dir
      in if newX \<ge> 0 \<and> newX < int gw \<and> newY \<ge> 0 \<and> newY < int gh then
           (if \<not> inGrid g (nat newX, nat newY) then Inl TypeError
            else let neighbor = cellAt g (nat newX, nat newY)
                 in if \<not> isWall neighbor \<and> \<not> isVisited neighbor then
                      (let tentativeDistance = distance (cellAt g current) + enat (weight neighbor)
                       in if tentativeDistance < distance neighbor
                          then Inr (updateCell (\<lambda>c. c\<lparr> distance := tentativeDistance,
                                                        previous := Some current \<rparr>)
                                      (nat newX, nat newY) g)
                          else Inr g)
                    else Inr g)
         else Inr g)"

fun relaxAll ::
  "nat \<Rightarrow> nat \<Rightarrow> Position \<Rightarrow> (int \<times> int) list \<Rightarrow> GridCell list list \<Rightarrow> fault + GridCell list list" where
  "relaxAll gw gh current [] g = Inr g"
| "relaxAll gw gh current (dir # dirs) g =
     (case relax gw gh current dir g of
        Inl e \<Rightarrow> Inl e
      | Inr g' \<Rightarrow> relaxAll gw gh current dirs g')"

text \<open>
  The walk back along \<open>previous\<close>. \<open>while (pathNode)\<close> has no bound of its own: a walk that
  never reaches a cell without predecessor is the value \<open>None\<close>.
\<close>

partial_function (option) reconstructPath ::
  "GridCell list list \<Rightarrow> Position option \<Rightarrow> nat \<Rightarrow> nat \<Rightarrow> (GridCell list list \<times> nat \<times> nat) option" where
  "reconstructPath g pathNode pathLen totalDist =
     (case pathNode of
        None \<Rightarrow> Some (g, pathLen, totalDist)
      | Some p \<Rightarrow>
          reconstructPath (updateCell (\<lambda>c. c\<lparr> isPath := True \<rparr>) p g) (previous (cellAt g p))
            (Suc pathLen) (totalDist + weight (cellAt g p)))"

declare reconstructPath.simps [code]

text \<open>
  One iteration of \<open>while (unvisited.length > 0)\<close> on the run's own variables (\<open>newGrid\<close>,
  \<open>unvisited\<close>, \<open>visited\<close>): either the run goes on, or the loop is left without a path
  (the list is empty or the closest cell is at distance \<open>Infinity\<close>), or the end cell is reached
  and the path walked back, or a fault is thrown.
\<close>

datatype iteration =
    Continue "GridCell list list" "Position list" nat
  | Stopped "GridCell list list" nat
  | Reached "GridCell list list" nat nat nat
  | Thrown fault

definition dijkstra_step ::
  "nat \<Rightarrow> nat \<Rightarrow> GridCell list list \<Rightarrow> Position list \<Rightarrow> nat \<Rightarrow> iteration option" where
  "dijkstra_step gw gh g unvisited visitedN =
     (case sortByDistance g unvisited of
        [] \<Rightarrow> Some (Stopped g visitedN)
      | current # rest \<Rightarrow>
          if distance (cellAt g current) = \<infinity> then Some (Stopped g visitedN)
          else
            let g1 = updateCell (\<lambda>c. c\<lparr> isVisited := True \<rparr>) current g
            in if isEnd (cellAt g1 current) then
                 (case reconstructPath g1 (Some current) 0 0 of
                    None \<Rightarrow> None
                  | Some (g2, pathLen, totalDist) \<Rightarrow>
                      Some (Reached g2 (Suc visitedN) pathLen totalDist))
               else
                 (case relaxAll gw gh current directions g1 of
                    Inl e \<Rightarrow> Some (Thrown e)
                  | Inr g2 \<Rightarrow> Some (Continue g2 rest (Suc visitedN))))"

lemma dijkstra_step_shorter:
  "dijkstra_step gw gh g unvisited visitedN = Some (Continue g' unvisited' visitedN') \<Longrightarrow>
   length unvisited' < length unvisited"
proof -
  assume a: "dijkstra_step gw gh g unvisited visitedN = Some (Continue g' unvisited' visitedN')"
  then obtain current where "sortByDistance g unvisited = current # unvisited'"
    by (auto simp: dijkstra_step_def Let_def
             split: list.splits if_splits option.splits sum.splits prod.splits)
  then have "length (sortByDistance g unvisited) = Suc (length unvisited')"
    by simp
  then show ?thesis by (simp add: sortByDistance_def)
qed

function dijkstra_loop ::
  "nat \<Rightarrow> nat \<Rightarrow> GridCell list list \<Rightarrow> Position list \<Rightarrow> nat \<Rightarrow> iteration option" where
  "dijkstra_loop gw gh g unvisited visitedN =
     (case dijkstra_step gw gh g unvisited visitedN of
        Some (Continue g' unvisited' visitedN') \<Rightarrow> dijkstra_loop gw gh g' unvisited' visitedN'
      | r \<Rightarrow> r)"
  by pat_completeness auto
termination
  by (relation "measure (\<lambda>(gw, gh, g, unvisited, visitedN). length unvisited)")
     (auto dest: dijkstra_step_shorter)

declare dijkstra_loop.simps [simp del]

text \<open>
  The state the run leaves: the cells of \<open>newGrid\<close> are the cells of the displayed grid, the
  count of visited cells was set at each iteration, and only a run that reaches the end cell
  sets the path length, the total cost and \<open>gameCompleted\<close>.
\<close>

definition finishRun :: "PathFinder \<Rightarrow> iteration \<Rightarrow> fault + PathFinder" where
  "finishRun s r =
     (case r of
        Thrown e \<Rightarrow> Inl e
      | Continue g unvisited visitedN \<Rightarrow>
          Inr (s\<lparr> pf_grid := g,
                  pf_visitedCount := (if visitedN = 0 then pf_visitedCount s else visitedN) \<rparr>)
      | Stopped g visitedN \<Rightarrow>
          Inr (s\<lparr> pf_grid := g,
                  pf_visitedCount := (if visitedN = 0 then pf_visitedCount s else visitedN),
                  pf_isRunning := False \<rparr>)
      | Reached g visitedN pathLen totalDist \<Rightarrow>
          Inr (s\<lparr> pf_grid := g, pf_visitedCount := visitedN, pf_pathLength := pathLen,
                  pf_totalDistance := totalDist, pf_gameCompleted := True,
                  pf_isRunning := False \<rparr>))"

definition runDijkstra :: "PathFinder \<Rightarrow> (fault + PathFinder) option" where
  "runDijkstra s =
     (let gw = gridWidth (pf_isMobile s);
          gh = gridHeight (pf_isMobile s);
          newGrid = map (map resetCell) (pf_grid s);
          s0 = s\<lparr> pf_grid := newGrid \<rparr>
      in case findStart newGrid (rowMajor gw gh) of
           Inl e \<Rightarrow> Some (Inl e)
         | Inr None \<Rightarrow> Some (Inr s0)
         | Inr (Some startCell) \<Rightarrow>
             map_option (finishRun s0) (dijkstra_loop gw gh newGrid (nonWallCells newGrid) 0))"

definition pf_startAlgorithm :: "PathFinder \<Rightarrow> (fault + PathFinder) option" where
  "pf_startAlgorithm s =
     (if pf_isRunning s then Some (Inr s)
      else runDijkstra (s\<lparr> pf_isRunning := True, pf_showInstructions := False \<rparr>))"

text \<open>The run's variables at the start of iteration \<open>n\<close> (counted from 0).\<close>

fun dijkstra_iterations ::
  "nat \<Rightarrow> nat \<Rightarrow> nat \<Rightarrow> GridCell list list \<Rightarrow> Position list \<Rightarrow> nat \<Rightarrow> iteration option" where
  "dijkstra_iterations 0 gw gh g unvisited visitedN = Some (Continue g unvisited visitedN)"
| "dijkstra_iterations (Suc n) gw gh g unvisited visitedN =
     (case dijkstra_step gw gh g unvisited visitedN of
        Some (Continue g' unvisited' visitedN') \<Rightarrow> dijkstra_iterations n gw gh g' unvisited' visitedN'
      | _ \<Rightarrow> None)"

text \<open>
  The states of the component: those reached from the initial grid by clicks on the canvas and
  on the mode buttons, the states a run passes through, and the state a run ends in.
\<close>

inductive pf_reachable :: "PathFinder \<Rightarrow> bool" where
  pf_init: "(\<And>x y. 1 \<le> randomWeight x y \<and> randomWeight x y \<le> 6) \<Longrightarrow>
            pf_reachable (initializeGrid isMobile randomWeight)"
| pf_click: "pf_reachable s \<Longrightarrow> pf_handleCanvasClick s x y = Inr s' \<Longrightarrow> pf_reachable s'"
| pf_mode: "pf_reachable s \<Longrightarrow> pf_reachable (setDrawMode m s)"
| pf_running:
    "pf_reachable s \<Longrightarrow> \<not> pf_isRunning s \<Longrightarrow>
     newGrid = map (map resetCell) (pf_grid s) \<Longrightarrow>
     findStart newGrid (rowMajor (gridWidth (pf_isMobile s)) (gridHeight (pf_isMobile s)))
       = Inr (Some startCell) \<Longrightarrow>
     dijkstra_iterations n (gridWidth (pf_isMobile s)) (gridHeight (pf_isMobile s)) newGrid
       (nonWallCells newGrid) 0 = Some r \<Longrightarrow>
     finishRun (s\<lparr> pf_isRunning := True, pf_showInstructions := False \<rparr>) r = Inr s' \<Longrightarrow>
     pf_reachable s'"
| pf_ran: "pf_reachable s \<Longrightarrow> pf_startAlgorithm s = Some (Inr s') \<Longrightarrow> pf_reachable s'"

definition countCells :: "('c \<Rightarrow> bool) \<Rightarrow> 'c list list \<Rightarrow> nat" where
  "countCells P g = sum_list (map (\<lambda>row. length (filter P row)) g)"

text \<open>
  What a run never changes in a cell: its coordinates, whether it is a wall, the start or the
  end, and its weight.
\<close>

definition layout :: "GridCell \<Rightarrow> nat \<times> nat \<times> bool \<times> bool \<times> bool \<times> nat" where
  "layout c = (cell_x c, cell_y c, isWall c, isStart c, isEnd c, weight c)"

definition marks :: "GridCell list list \<Rightarrow> (nat \<times> nat \<times> bool \<times> bool \<times> bool \<times> nat) list list" where
  "marks g = map (map layout) g"

definition iterationGrid :: "iteration \<Rightarrow> GridCell list list option" where
  "iterationGrid r =
     (case r of Continue g u v \<Rightarrow> Some g | Stopped g v \<Rightarrow> Some g
              | Reached g v n t \<Rightarrow> Some g | Thrown e \<Rightarrow> None)"

subsection \<open>Grids drawn by the user\<close>







subsection \<open>Well-formed grids, paths and back-pointer chains\<close>

text \<open>
  A grid of \<open>gw\<close> by \<open>gh\<close> cells, each cell carrying its own coordinates, as the two
  initialisers build them.
\<close>

definition wfGrid :: "nat \<Rightarrow> nat \<Rightarrow> 'a MazeCell_scheme list list \<Rightarrow> bool" where
  "wfGrid gw gh g \<longleftrightarrow>
     length g = gh \<and>
     (\<forall>y<gh. length (g ! y) = gw \<and> (\<forall>x<gw. cell_x (g ! y ! x) = x \<and> cell_y (g ! y ! x) = y))"

definition adjacent :: "Position \<Rightarrow> Position \<Rightarrow> bool" where
  "adjacent p q \<longleftrightarrow>
     (\<exists>d\<in>set directions. int (fst q) = int (fst p) + fst d \<and> int (snd q) = int (snd p) + snd d)"

definition openCell :: "'a MazeCell_scheme list list \<Rightarrow> Position \<Rightarrow> bool" where
  "openCell g p \<longleftrightarrow> inGrid g p \<and> \<not> isWall (cellAt g p)"

text \<open>
  \<open>pathOfLength g a n q\<close>: \<open>n\<close> moves lead from \<open>a\<close> to \<open>q\<close>, each to a 4-directionally adjacent
  cell of the grid that is not a wall.
\<close>

inductive pathOfLength :: "'a MazeCell_scheme list list \<Rightarrow> Position \<Rightarrow> nat \<Rightarrow> Position \<Rightarrow> bool"
  for g :: "'a MazeCell_scheme list list" and a :: Position where
  path_start: "pathOfLength g a 0 a"
| path_move: "pathOfLength g a n p \<Longrightarrow> adjacent p q \<Longrightarrow> openCell g q \<Longrightarrow>
              pathOfLength g a (Suc n) q"

text \<open>The cells met when walking back along \<open>previous\<close>, from a cell to one without predecessor.\<close>

inductive backChain :: "GridCell list list \<Rightarrow> Position option \<Rightarrow> Position list \<Rightarrow> bool"
  for g :: "GridCell list list" where
  chain_end: "backChain g None []"
| chain_step: "backChain g (previous (cellAt g p)) ps \<Longrightarrow> backChain g (Some p) (p # ps)"








text \<open>
  What holds of the grid in every state of the path finder: it is well formed for the layout,
  its weights are positive, and it has one start cell and one end cell.
\<close>

definition pfInv :: "PathFinder \<Rightarrow> bool" where
  "pfInv s \<longleftrightarrow>
     wfGrid (gridWidth (pf_isMobile s)) (gridHeight (pf_isMobile s)) (pf_grid s) \<and>
     (\<forall>p. inGrid (pf_grid s) p \<longrightarrow> 1 \<le> weight (cellAt (pf_grid s) p)) \<and>
     countCells isStart (pf_grid s) = 1 \<and> countCells isEnd (pf_grid s) = 1"



section \<open>Network connector: Kruskal with union-find (NetworkConnector.tsx)\<close>

text \<open>
  The arrays \<open>parent\<close> and \<open>rank\<close> are indexed by node id. \<open>find\<close> compresses the path on
  its way back; it returns the root and the array as it has left it. A call that never comes
  back (the parents form a cycle) is \<open>None\<close>; so is a call on an id outside the array, which
  the program never makes (ids are array indices) and which is left out of the model.
\<close>

partial_function (option) find_uf :: "nat list \<Rightarrow> nat \<Rightarrow> (nat \<times> nat list) option" where
  "find_uf parent x =
     (if x \<ge> length parent then None
      else if parent ! x \<noteq> x
      then Option.bind (find_uf parent (parent ! x))
             (\<lambda>r. Some (fst r, (snd r)[x := fst r]))
      else Some (parent ! x, parent))"

declare find_uf.simps [code]

record UnionFind =
  uf_parent :: "nat list"
  uf_rank :: "nat list"

definition initUnionFind :: "nat \<Rightarrow> UnionFind" where
  "initUnionFind n = \<lparr> uf_parent = [0 ..< n], uf_rank = replicate n 0 \<rparr>"

definition union_uf :: "UnionFind \<Rightarrow> nat \<Rightarrow> nat \<Rightarrow> (bool \<times> UnionFind) option" where
  "union_uf uf x y =
     (case find_uf (uf_parent uf) x of
        None \<Rightarrow> None
      | Some (rootX, parent1) \<Rightarrow>
          (case find_uf parent1 y of
             None \<Rightarrow> None
           | Some (rootY, parent2) \<Rightarrow>
               if rootX = rootY then Some (False, uf\<lparr> uf_parent := parent2 \<rparr>)
               else if uf_rank uf ! rootX < uf_rank uf ! rootY
               then Some (True, uf\<lparr> uf_parent := parent2[rootX := rootY] \<rparr>)
               else if uf_rank uf ! rootX > uf_rank uf ! rootY
               then Some (True, uf\<lparr> uf_parent := parent2[rootY := rootX] \<rparr>)
               else Some (True, uf\<lparr> uf_parent := parent2[rootY := rootX],
                                    uf_rank := (uf_rank uf)[rootX := uf_rank uf ! rootX + 1] \<rparr>)))"

section \<open>Graph coloring (GraphColoring.tsx)\<close>















section \<open>Maze solver: breadth-first and depth-first search (MazeSolver.tsx)\<close>

datatype Algorithm = BFS | DFS

text \<open>The component's state. The timer (\<open>startTime\<close>, \<open>timeElapsed\<close>) plays no part in a run.\<close>

record MazeSolver =
  ms_maze :: "MazeCell list list"
  ms_isRunning :: bool
  ms_algorithm :: Algorithm
  ms_visitedCount :: nat
  ms_pathLength :: nat
  ms_gameCompleted :: bool
  ms_showInstructions :: bool
  ms_isMobile :: bool

definition mazeWidth :: "bool \<Rightarrow> nat" where
  "mazeWidth isMobile = (if isMobile then 20 else 25)"

definition mazeHeight :: "bool \<Rightarrow> nat" where
  "mazeHeight isMobile = (if isMobile then 12 else 15)"





text \<open>
  \<open>getNeighbors\<close>. The function is a closure over \<open>maze\<close>, the state of the render in which
  the run was started: the walls and the visited marks it tests are those of that maze, not of
  the run's copy \<open>newMaze\<close>. Reading a cell outside the array is a \<open>TypeError\<close>.
\<close>

fun neighborsFrom ::
  "nat \<Rightarrow> nat \<Rightarrow> MazeCell list list \<Rightarrow> MazeCell \<Rightarrow> (int \<times> int) list \<Rightarrow> fault + Position list" where
  "neighborsFrom mw mh maze cell [] = Inr []"
| "neighborsFrom mw mh maze cell (dir # dirs) =
     (let newX = int (cell_x cell) + fst dir;
          newY = int (cell_y cell) + snd dir
      in if newX \<ge> 0 \<and> newX < int mw \<and> newY \<ge> 0 \<and> newY < int mh then
           (if \<not> inGrid maze (nat newX, nat newY) then Inl TypeError
            else case neighborsFrom mw mh maze cell dirs of
                   Inl e \<Rightarrow> Inl e
                 | Inr nbs \<Rightarrow>
                     Inr (if \<not> isWall (cellAt maze (nat newX, nat newY)) \<and>
                             \<not> isVisited (cellAt maze (nat newX, nat newY))
                          then (nat newX, nat newY) # nbs else nbs))
         else neighborsFrom mw mh maze cell dirs)"

definition getNeighbors ::
  "nat \<Rightarrow> nat \<Rightarrow> MazeCell list list \<Rightarrow> MazeCell \<Rightarrow> fault + Position list" where
  "getNeighbors mw mh maze cell = neighborsFrom mw mh maze cell directions"

text \<open>
  \<open>neighbors.forEach\<close>: a neighbour not yet visited in \<open>newMaze\<close> gets the current cell as
  parent, replacing any earlier one, and is pushed at the end of the frontier.
\<close>

fun pushNeighbors ::
  "MazeCell list list \<Rightarrow> Position \<Rightarrow> Position list \<Rightarrow> Position list \<Rightarrow> (Position \<rightharpoonup> Position) \<Rightarrow>
   fault + Position list \<times> (Position \<rightharpoonup> Position)" where
  "pushNeighbors newMaze current [] frontier parent = Inr (frontier, parent)"
| "pushNeighbors newMaze current (neighbor # nbs) frontier parent =
     (if \<not> inGrid newMaze neighbor then Inl TypeError
      else if \<not> isVisited (cellAt newMaze neighbor)
           then pushNeighbors newMaze current nbs (frontier @ [neighbor])
                  (parent(neighbor \<mapsto> current))
           else pushNeighbors newMaze current nbs frontier parent)"

text \<open>
  The walk back along \<open>parent\<close>, marking the path and counting its cells. \<open>while (pathNode)\<close>
  has no bound of its own: a walk that never reaches a cell without parent is the value \<open>None\<close>.
\<close>

partial_function (option) tracePath ::
  "MazeCell list list \<Rightarrow> (Position \<rightharpoonup> Position) \<Rightarrow> Position option \<Rightarrow> nat \<Rightarrow>
   (fault + MazeCell list list \<times> nat) option" where
  "tracePath newMaze parent pathNode pathLen =
     (case pathNode of
        None \<Rightarrow> Some (Inr (newMaze, pathLen))
      | Some p \<Rightarrow>
          if \<not> inGrid newMaze p then Some (Inl TypeError)
          else tracePath (updateCell (\<lambda>c. c\<lparr> isPath := True \<rparr>) p newMaze) parent (parent p)
                 (Suc pathLen))"

declare tracePath.simps [code]

text \<open>
  \<open>runBFS\<close> and \<open>runDFS\<close> are the same text but for the cell they take from the frontier:
  \<open>queue.shift()\<close>, the first, or \<open>stack.pop()\<close>, the last.
\<close>

fun takeNext :: "Algorithm \<Rightarrow> Position list \<Rightarrow> (Position \<times> Position list) option" where
  "takeNext alg [] = None"
| "takeNext BFS (p # ps) = Some (p, ps)"
| "takeNext DFS (p # ps) = Some (last (p # ps), butlast (p # ps))"

text \<open>
  One iteration of the \<open>while\<close> loop on the run's own variables (\<open>newMaze\<close>, the frontier,
  \<open>parent\<close>, \<open>visited\<close>): the run goes on, or the frontier is empty and the loop is left, or
  the end cell is reached and the path walked back, or a fault is thrown.
\<close>

datatype search =
    Searching "MazeCell list list" "Position list" "Position \<rightharpoonup> Position" nat
  | Exhausted "MazeCell list list" nat
  | PathFound "MazeCell list list" nat nat
  | Faulted fault

definition search_step ::
  "Algorithm \<Rightarrow> nat \<Rightarrow> nat \<Rightarrow> MazeCell list list \<Rightarrow> MazeCell list list \<Rightarrow> Position list \<Rightarrow>
   (Position \<rightharpoonup> Position) \<Rightarrow> nat \<Rightarrow> search option" where
  "search_step alg mw mh maze newMaze frontier parent visitedN =
     (case takeNext alg frontier of
        None \<Rightarrow> Some (Exhausted newMaze visitedN)
      | Some (current, rest) \<Rightarrow>
          if \<not> inGrid newMaze current then Some (Faulted TypeError)
          else if isVisited (cellAt newMaze current)
          then Some (Searching newMaze rest parent visitedN)
          else
            let m1 = updateCell (\<lambda>c. c\<lparr> isVisited := True \<rparr>) current newMaze
            in if isEnd (cellAt m1 current) then
                 (case tracePath m1 parent (Some current) 0 of
                    None \<Rightarrow> None
                  | Some (Inl e) \<Rightarrow> Some (Faulted e)
                  | Some (Inr (m2, pathLen)) \<Rightarrow> Some (PathFound m2 (Suc visitedN) pathLen))
               else
                 (case getNeighbors mw mh maze (cellAt m1 current) of
                    Inl e \<Rightarrow> Some (Faulted e)
                  | Inr nbs \<Rightarrow>
                      (case pushNeighbors m1 current nbs rest parent of
                         Inl e \<Rightarrow> Some (Faulted e)
                       | Inr (frontier', parent') \<Rightarrow>
                           Some (Searching m1 frontier' parent' (Suc visitedN)))))"

lemma filter_update_less:
  "i < length xs \<Longrightarrow> P (xs ! i) \<Longrightarrow> \<not> P v \<Longrightarrow>
   length (filter P (xs[i := v])) < length (filter P xs)"
proof (induction xs arbitrary: i)
  case Nil
  then show ?case by simp
next
  case (Cons a xs)
  then show ?case by (cases i) (auto simp: Suc_lessI less_SucI)
qed

lemma sum_list_update_less:
  "y < length g \<Longrightarrow> h r < h (g ! y) \<Longrightarrow> sum_list (map h (g[y := r])) < (sum_list (map h g) :: nat)"
proof (induction g arbitrary: y)
  case Nil
  then show ?case by simp
next
  case (Cons a g)
  then show ?case by (cases y) auto
qed

lemma countCells_less:
  "inGrid g p \<Longrightarrow> P (cellAt g p) \<Longrightarrow> \<not> P (f (cellAt g p)) \<Longrightarrow>
   countCells P (updateCell f p g) < countCells P g"
  unfolding countCells_def updateCell_def inGrid_def cellAt_def
  by (rule sum_list_update_less) (simp_all add: filter_update_less)

lemma takeNext_shorter: "takeNext alg frontier = Some (current, rest) \<Longrightarrow> length rest < length frontier"
  by (cases alg; cases frontier) auto

lemma search_step_smaller:
  assumes "search_step alg mw mh maze newMaze frontier parent visitedN =
             Some (Searching newMaze' frontier' parent' visitedN')"
  shows "countCells (\<lambda>c. \<not> isVisited c) newMaze' < countCells (\<lambda>c. \<not> isVisited c) newMaze \<or>
         (newMaze' = newMaze \<and> length frontier' < length frontier)"
proof -
  from assms obtain current rest where t: "takeNext alg frontier = Some (current, rest)"
    by (auto simp: search_step_def split: option.splits)
  show ?thesis
  proof (cases "isVisited (cellAt newMaze current)")
    case True
    with assms t have "newMaze' = newMaze \<and> frontier' = rest"
      by (auto simp: search_step_def split: if_splits)
    with takeNext_shorter[OF t] show ?thesis by simp
  next
    case False
    with assms t have
      "inGrid newMaze current \<and> newMaze' = updateCell (\<lambda>c. c\<lparr> isVisited := True \<rparr>) current newMaze"
      by (auto simp: search_step_def Let_def split: if_splits option.splits sum.splits prod.splits)
    with False countCells_less[of newMaze current "\<lambda>c. \<not> isVisited c" "\<lambda>c. c\<lparr> isVisited := True \<rparr>"]
    show ?thesis by simp
  qed
qed

text \<open>
  The loop. Each iteration either visits a cell that was not visited or shortens the
  frontier, so the loop comes to an end; only the walk back along \<open>parent\<close> may fail to return.
\<close>

function search_loop ::
  "Algorithm \<Rightarrow> nat \<Rightarrow> nat \<Rightarrow> MazeCell list list \<Rightarrow> MazeCell list list \<Rightarrow> Position list \<Rightarrow>
   (Position \<rightharpoonup> Position) \<Rightarrow> nat \<Rightarrow> search option" where
  "search_loop alg mw mh maze newMaze frontier parent visitedN =
     (case search_step alg mw mh maze newMaze frontier parent visitedN of
        Some (Searching newMaze' frontier' parent' visitedN') \<Rightarrow>
          search_loop alg mw mh maze newMaze' frontier' parent' visitedN'
      | r \<Rightarrow> r)"
  by pat_completeness auto
termination
  by (relation "measures [\<lambda>(alg, mw, mh, maze, newMaze, frontier, parent, visitedN).
                            countCells (\<lambda>c. \<not> isVisited c) newMaze,
                          \<lambda>(alg, mw, mh, maze, newMaze, frontier, parent, visitedN).
                            length frontier]")
     (auto dest: search_step_smaller)

declare search_loop.simps [simp del]


definition clearMarks :: "MazeCell \<Rightarrow> MazeCell" where
  "clearMarks c = c\<lparr> isVisited := False, isPath := False \<rparr>"

text \<open>
  The loop of a run started in state \<open>s\<close>: on a copy of the maze with its marks cleared, from
  the frontier that holds the cell \<open>(1, 1)\<close>, with no parents and no cell visited.
\<close>

definition searchFrom :: "Algorithm \<Rightarrow> MazeSolver \<Rightarrow> search option" where
  "searchFrom alg s =
     search_loop alg (mazeWidth (ms_isMobile s)) (mazeHeight (ms_isMobile s)) (ms_maze s)
       (map (map clearMarks) (ms_maze s)) [(1, 1)] Map.empty 0"






subsection \<open>Mazes for the scenarios\<close>




subsection \<open>What holds during a search\<close>



definition visit :: "Position \<Rightarrow> MazeCell list list \<Rightarrow> MazeCell list list" where
  "visit p m = updateCell (\<lambda>c. c\<lparr> isVisited := True \<rparr>) p m"




section \<open>Properties of the cycle detector\<close>

subsection \<open>The edge list never holds the same edge twice\<close>

lemma noDuplicateEdge_snoc:
  "noDuplicateEdge d (es @ [e]) \<longleftrightarrow>
     noDuplicateEdge d es \<and> \<not> list_ex (\<lambda>e'. sameEdge d e' e) es"
  by (induction es) (auto simp: list_ex_iff)

lemma edgeExists_sameEdge:
  "edgeExists s sel clicked \<longleftrightarrow>
     list_ex (\<lambda>e'. sameEdge (cd_isDirected s) e'
                     \<lparr> edge_from = sel, edge_to = clicked, isInCycle = False \<rparr>) (cd_edges s)"
  by (auto simp: edgeExists_def sameEdge_def list_ex_iff)

lemma sameEdge_sym: "sameEdge d e e' \<longleftrightarrow> sameEdge d e' e"
  by (auto simp: sameEdge_def)

lemma click_keeps_noDuplicate:
  "noDuplicateEdge (cd_isDirected s) (cd_edges s) \<Longrightarrow>
   noDuplicateEdge (cd_isDirected (cd_handleCanvasClick s c)) (cd_edges (cd_handleCanvasClick s c))"
  by (auto simp: cd_handleCanvasClick_def Let_def noDuplicateEdge_snoc edgeExists_sameEdge
           split: option.splits)

lemma reachable_noDuplicate:
  "cd_reachable s \<Longrightarrow> noDuplicateEdge (cd_isDirected s) (cd_edges s)"
proof (induction rule: cd_reachable.induct)
  case (cd_init isMobile)
  then show ?case by (simp add: generateNodes_def Let_def)
next
  case (cd_click s clickedNode)
  then show ?case by (intro click_keeps_noDuplicate)
next
  case (cd_clear s)
  then show ?case by (simp add: clearGraph_def)
next
  case (cd_toggle s)
  then show ?case by (simp add: toggleGraphType_def clearGraph_def)
qed

lemma noDuplicateEdge_nth:
  "noDuplicateEdge d es \<longleftrightarrow>
     (\<forall>i j. i < j \<and> j < length es \<longrightarrow> \<not> sameEdge d (es ! i) (es ! j))"
proof (induction es)
  case Nil
  then show ?case by simp
next
  case (Cons e es)
  have "(\<forall>i j. i < j \<and> j < length (e # es) \<longrightarrow> \<not> sameEdge d ((e # es) ! i) ((e # es) ! j)) \<longleftrightarrow>
        (\<forall>j. j < length es \<longrightarrow> \<not> sameEdge d e (es ! j)) \<and>
        (\<forall>i j. i < j \<and> j < length es \<longrightarrow> \<not> sameEdge d (es ! i) (es ! j))"
    (is "?L \<longleftrightarrow> ?A \<and> ?B")
  proof
    assume L: ?L
    have ?A
    proof (intro allI impI)
      fix j assume "j < length es"
      with L[rule_format, of 0 "Suc j"] show "\<not> sameEdge d e (es ! j)" by simp
    qed
    moreover have ?B
    proof (intro allI impI)
      fix i j assume "i < j \<and> j < length es"
      with L[rule_format, of "Suc i" "Suc j"] show "\<not> sameEdge d (es ! i) (es ! j)" by simp
    qed
    ultimately show "?A \<and> ?B" ..
  next
    assume AB: "?A \<and> ?B"
    show ?L
    proof (intro allI impI)
      fix i j assume ij: "i < j \<and> j < length (e # es)"
      then obtain j' where j': "j = Suc j'" by (cases j) auto
      show "\<not> sameEdge d ((e # es) ! i) ((e # es) ! j)"
      proof (cases i)
        case 0
        with AB ij j' show ?thesis by simp
      next
        case (Suc i')
        with AB ij j' show ?thesis by simp
      qed
    qed
  qed
  moreover have "?A \<longleftrightarrow> \<not> list_ex (sameEdge d e) es"
    by (auto simp: list_ex_iff in_set_conv_nth dest: nth_mem)
  ultimately show ?case using Cons.IH by simp
qed

text \<open>
  Claim C10. In every state reached by clicking (on the canvas, on the clear button, on the
  directed/undirected switch), no two positions of the edge list hold the same edge: the same
  ordered pair in a directed graph, the same pair in either orientation in an undirected one.
  And a click that would add an edge whose equivalent is already in the list leaves the edge
  list as it is.
\<close>

theorem no_duplicate_edges:
  "cd_reachable s \<Longrightarrow>
     (\<forall>i j. i < j \<and> j < length (cd_edges s) \<longrightarrow>
            \<not> sameEdge (cd_isDirected s) (cd_edges s ! i) (cd_edges s ! j)) \<and>
     (\<forall>sel clicked.
        cd_selectedNode s = Some sel \<and>
        list_ex (sameEdge (cd_isDirected s)
                   \<lparr> edge_from = sel, edge_to = clicked, isInCycle = False \<rparr>) (cd_edges s)
        \<longrightarrow> cd_edges (cd_handleCanvasClick s (Some clicked)) = cd_edges s)"
proof
  assume r: "cd_reachable s"
  show "\<forall>i j. i < j \<and> j < length (cd_edges s) \<longrightarrow>
            \<not> sameEdge (cd_isDirected s) (cd_edges s ! i) (cd_edges s ! j)"
    using reachable_noDuplicate[OF r] by (simp only: noDuplicateEdge_nth)
  show "\<forall>sel clicked.
        cd_selectedNode s = Some sel \<and>
        list_ex (sameEdge (cd_isDirected s)
                   \<lparr> edge_from = sel, edge_to = clicked, isInCycle = False \<rparr>) (cd_edges s)
        \<longrightarrow> cd_edges (cd_handleCanvasClick s (Some clicked)) = cd_edges s"
    by (auto simp: cd_handleCanvasClick_def Let_def edgeExists_sameEdge list_ex_iff sameEdge_sym)
qed

text \<open>
  The theorem at the state reached by clicking A, B, A: the edge A\<rightarrow>B is drawn and A is
  selected again, so that a further click on B would add A\<rightarrow>B a second time, and does not.
\<close>

theorem no_duplicate_edges_witness:
  "cd_reachable (cd_handleCanvasClick (drawEdges (generateNodes False) [(0, 1)]) (Some 0)) \<and>
   cd_edges (cd_handleCanvasClick
               (cd_handleCanvasClick (drawEdges (generateNodes False) [(0, 1)]) (Some 0)) (Some 1))
     = [\<lparr> edge_from = 0, edge_to = 1, isInCycle = False \<rparr>]"
proof -
  let ?s = "cd_handleCanvasClick (drawEdges (generateNodes False) [(0, 1)]) (Some 0)"
  have r: "cd_reachable ?s"
    unfolding drawEdges_def by (simp del: One_nat_def) (intro cd_click cd_init)
  have sel: "cd_selectedNode ?s = Some 0"
    by (simp add: drawEdges_def generateNodes_def cd_handleCanvasClick_def edgeExists_def Let_def)
  have es: "cd_edges ?s = [\<lparr> edge_from = 0, edge_to = 1, isInCycle = False \<rparr>]"
    by (simp add: drawEdges_def generateNodes_def cd_handleCanvasClick_def edgeExists_def Let_def)
  have ex: "list_ex (sameEdge (cd_isDirected ?s)
                       \<lparr> edge_from = 0, edge_to = 1, isInCycle = False \<rparr>) (cd_edges ?s)"
    by (simp add: drawEdges_def generateNodes_def cd_handleCanvasClick_def edgeExists_def Let_def
                  sameEdge_def)
  from no_duplicate_edges[OF r] sel ex
  have "cd_edges (cd_handleCanvasClick ?s (Some 1)) = cd_edges ?s" by blast
  with r es show ?thesis by simp
qed

subsection \<open>The three-node scenarios\<close>

lemma upt_0_4: "[0 ..< 4] = [0, 1, 2, 3 :: nat]"
  by (simp add: upt_rec)

lemma upt_0_5: "[0 ..< 5] = [0, 1, 2, 3, 4 :: nat]"
  by (simp add: upt_rec)

lemmas cd_eval =
  detectCycle_def drawEdges_def generateNodes_def toggleGraphType_def clearGraph_def
  cd_handleCanvasClick_def edgeExists_def Let_def paint_def flagEdge_def lookupEither_def
  upt_0_4 upt_0_5

text \<open>
  Claim C1, as the program has it. On the directed edges A\<rightarrow>B, B\<rightarrow>C, C\<rightarrow>A (drawn in this order
  on the five-node or the four-node layout) the search ends, for every depth bound of at least
  four, reporting a cycle; the reported cycle-edge set is the one edge that closes the cycle,
  C\<rightarrow>A, which has index 2. Without C\<rightarrow>A no cycle is reported and the set is empty; the same two
  edges drawn on the undirected graph report no cycle either.
\<close>

theorem triangle_scenarios:
  "(\<exists>s. detectCycle (Suc (Suc (Suc (Suc k))))
            (drawEdges (generateNodes m) [(0, 1), (1, 2), (2, 0)]) = Some (Inr s) \<and>
        cd_hasCycle s \<and> cd_cycleEdges s = {2} \<and> \<not> cd_isRunning s) \<and>
   (\<exists>s. detectCycle (Suc (Suc (Suc (Suc k))))
            (drawEdges (generateNodes m) [(0, 1), (1, 2)]) = Some (Inr s) \<and>
        \<not> cd_hasCycle s \<and> cd_cycleEdges s = {} \<and> \<not> cd_isRunning s) \<and>
   (\<exists>s. detectCycle (Suc (Suc (Suc (Suc k))))
            (drawEdges (toggleGraphType (generateNodes m)) [(0, 1), (1, 2)]) = Some (Inr s) \<and>
        \<not> cd_isDirected s \<and> \<not> cd_hasCycle s \<and> cd_cycleEdges s = {} \<and> \<not> cd_isRunning s)"
proof (intro conjI)
  show "\<exists>s. detectCycle (Suc (Suc (Suc (Suc k))))
            (drawEdges (generateNodes m) [(0, 1), (1, 2), (2, 0)]) = Some (Inr s) \<and>
        cd_hasCycle s \<and> cd_cycleEdges s = {2} \<and> \<not> cd_isRunning s"
    by (cases m) (simp_all add: cd_eval)
  show "\<exists>s. detectCycle (Suc (Suc (Suc (Suc k))))
            (drawEdges (generateNodes m) [(0, 1), (1, 2)]) = Some (Inr s) \<and>
        \<not> cd_hasCycle s \<and> cd_cycleEdges s = {} \<and> \<not> cd_isRunning s"
    by (cases m) (simp_all add: cd_eval)
  show "\<exists>s. detectCycle (Suc (Suc (Suc (Suc k))))
            (drawEdges (toggleGraphType (generateNodes m)) [(0, 1), (1, 2)]) = Some (Inr s) \<and>
        \<not> cd_isDirected s \<and> \<not> cd_hasCycle s \<and> cd_cycleEdges s = {} \<and> \<not> cd_isRunning s"
    by (cases m) (simp_all add: cd_eval)
qed

text \<open>
  The claim as written fails: on the directed triangle a cycle is reported, but the reported
  cycle-edge set does not cover the three edges.
\<close>

theorem triangle_cycle_edges_counterexample:
  "map_option (map_sum id (\<lambda>s. (cd_hasCycle s, {0, 1, 2} \<subseteq> cd_cycleEdges s)))
     (detectCycle (Suc (Suc (Suc (Suc 0))))
        (drawEdges (generateNodes False) [(0, 1), (1, 2), (2, 0)]))
   = Some (Inr (True, False))"
  by (simp add: cd_eval)

section \<open>Properties of the path finder\<close>

subsection \<open>One start cell and one end cell\<close>

lemma filter_update_same:
  "P (f (xs ! i)) = P (xs ! i) \<Longrightarrow> length (filter P (xs[i := f (xs ! i)])) = length (filter P xs)"
proof (induction xs arbitrary: i)
  case Nil
  then show ?case by simp
next
  case (Cons a xs)
  then show ?case by (cases i) auto
qed

lemma sum_list_update_same:
  "h r = h (g ! y) \<Longrightarrow> sum_list (map h (g[y := r])) = (sum_list (map h g) :: nat)"
proof (induction g arbitrary: y)
  case Nil
  then show ?case by simp
next
  case (Cons a g)
  then show ?case by (cases y) auto
qed

lemma countCells_updateCell:
  "(\<And>c. P (f c) = P c) \<Longrightarrow> countCells P (updateCell f p g) = countCells P g"
  unfolding countCells_def updateCell_def
  by (rule sum_list_update_same) (simp add: filter_update_same)

lemma countCells_map:
  "(\<And>c. P (f c) = P c) \<Longrightarrow> countCells P (map (map f) g) = countCells P g"
proof -
  assume a: "\<And>c. P (f c) = P c"
  have "\<And>row. length (filter P (map f row)) = length (filter P row)"
    by (simp add: filter_map o_def a)
  then show ?thesis by (simp add: countCells_def o_def)
qed

lemma editCell_flags [simp]:
  "isStart (editCell m c) = isStart c" "isEnd (editCell m c) = isEnd c"
  by (auto simp: editCell_def Let_def split: draw_mode.splits)

lemma resetCell_flags [simp]:
  "isStart (resetCell c) = isStart c" "isEnd (resetCell c) = isEnd c"
  by (auto simp: resetCell_def)

lemma count_filter_eq:
  "k < w \<Longrightarrow> length (filter (\<lambda>x. x = k \<and> Q) [0 ..< w]) = (if Q then 1 else 0)"
proof (induction w)
  case 0
  then show ?case by simp
next
  case (Suc w)
  then show ?case by (cases "k < w") auto
qed

lemma count_filter_none: "length (filter (\<lambda>x. False) xs) = 0"
  by simp

lemma sum_list_indicator:
  "k < h \<Longrightarrow> sum_list (map (\<lambda>y. if y = k then (1::nat) else 0) [0 ..< h]) = 1"
proof (induction h)
  case 0
  then show ?case by simp
next
  case (Suc h)
  show ?case
  proof (cases "k < h")
    case True
    with Suc show ?thesis by simp
  next
    case False
    with Suc.prems have "k = h" by simp
    moreover have "sum_list (map (\<lambda>y. if y = h then (1::nat) else 0) [0 ..< h]) = 0"
      by (simp add: sum_list_eq_0_iff)
    ultimately show ?thesis by simp
  qed
qed

lemma count_one_cell:
  assumes "kx < w" "ky < h" "\<And>x y. P (mk y x) \<longleftrightarrow> x = kx \<and> y = ky"
  shows "countCells P (map (\<lambda>y. map (mk y) [0 ..< w]) [0 ..< h]) = 1"
proof -
  have "\<And>y. length (filter P (map (mk y) [0 ..< w])) = (if y = ky then 1 else 0)"
    using count_filter_eq[OF assms(1)] by (simp add: filter_map o_def assms(3))
  then show ?thesis
    using sum_list_indicator[OF assms(2)] by (simp add: countCells_def o_def)
qed

lemma initial_start_count: "countCells isStart (pf_grid (initializeGrid m rw)) = 1"
proof -
  have "countCells isStart (map (\<lambda>y. map (initialCell m rw y) [0 ..< gridWidth m])
          [0 ..< gridHeight m]) = 1"
    by (rule count_one_cell[where kx = 2 and ky = "gridHeight m div 2"])
       (auto simp: initialCell_def gridWidth_def gridHeight_def)
  then show ?thesis by (simp add: initializeGrid_def)
qed

lemma initial_end_count: "countCells isEnd (pf_grid (initializeGrid m rw)) = 1"
proof -
  have "countCells isEnd (map (\<lambda>y. map (initialCell m rw y) [0 ..< gridWidth m])
          [0 ..< gridHeight m]) = 1"
    by (rule count_one_cell[where kx = "gridWidth m - 3" and ky = "gridHeight m div 2"])
       (auto simp: initialCell_def gridWidth_def gridHeight_def)
  then show ?thesis by (simp add: initializeGrid_def)
qed

lemma countCells_marks:
  "marks g = marks g' \<Longrightarrow>
   countCells isStart g = countCells isStart g' \<and> countCells isEnd g = countCells isEnd g'"
proof -
  assume a: "marks g = marks g'"
  have s: "\<And>g. countCells isStart g = countCells (\<lambda>l. fst (snd (snd (snd l)))) (marks g)"
    by (simp add: countCells_def marks_def layout_def o_def filter_map)
  have e: "\<And>g. countCells isEnd g = countCells (\<lambda>l. fst (snd (snd (snd (snd l))))) (marks g)"
    by (simp add: countCells_def marks_def layout_def o_def filter_map)
  show ?thesis by (simp add: s e a)
qed

lemma map_update_same:
  "h (f (xs ! i)) = h (xs ! i) \<Longrightarrow> map h (xs[i := f (xs ! i)]) = map h xs"
proof (induction xs arbitrary: i)
  case Nil
  then show ?case by simp
next
  case (Cons a xs)
  then show ?case by (cases i) auto
qed

lemma map_map_updateCell:
  assumes "\<And>c. h (f c) = h c"
  shows "map (map h) (updateCell f p g) = map (map h) g"
proof -
  have "map h ((g ! snd p)[fst p := f (g ! snd p ! fst p)]) = map h (g ! snd p)"
    by (rule map_update_same) (rule assms)
  then show ?thesis
    unfolding updateCell_def
    by (rule map_update_same[where f = "\<lambda>row. row[fst p := f (row ! fst p)]"])
qed

lemma marks_updateCell:
  "(\<And>c. layout (f c) = layout c) \<Longrightarrow> marks (updateCell f p g) = marks g"
  unfolding marks_def by (rule map_map_updateCell) simp

lemma layout_updates [simp]:
  "layout (c\<lparr> isVisited := v \<rparr>) = layout c"
  "layout (c\<lparr> isPath := b \<rparr>) = layout c"
  "layout (c\<lparr> distance := d \<rparr>) = layout c"
  "layout (c\<lparr> previous := q \<rparr>) = layout c"
  "layout (resetCell c) = layout c"
  by (simp_all add: layout_def resetCell_def)

lemma marks_reset: "marks (map (map resetCell) g) = marks g"
  by (simp add: marks_def o_def)

lemma marks_cell:
  assumes "marks g = marks g'"
  shows "inGrid g' p = inGrid g p \<and> (inGrid g p \<longrightarrow> layout (cellAt g' p) = layout (cellAt g p))"
proof -
  from assms have len: "length g' = length g" unfolding marks_def by (metis length_map)
  have row: "\<And>y. y < length g \<Longrightarrow> map layout (g' ! y) = map layout (g ! y)"
    using assms len unfolding marks_def by (metis nth_map)
  then have rl: "\<And>y. y < length g \<Longrightarrow> length (g' ! y) = length (g ! y)" by (metis length_map)
  have ig: "inGrid g' p = inGrid g p" using len rl by (auto simp: inGrid_def)
  have "inGrid g p \<Longrightarrow> layout (cellAt g' p) = layout (cellAt g p)"
  proof -
    assume a: "inGrid g p"
    then have y: "snd p < length g" and x: "fst p < length (g ! snd p)" by (simp_all add: inGrid_def)
    from row[OF y] have "map layout (g' ! snd p) ! fst p = map layout (g ! snd p) ! fst p" by simp
    with x rl[OF y] show ?thesis by (simp add: cellAt_def)
  qed
  with ig show ?thesis by blast
qed

lemma marks_relax: "relax gw gh current dir g = Inr g' \<Longrightarrow> marks g' = marks g"
  by (auto simp: relax_def Let_def marks_updateCell split: if_splits)

lemma marks_relaxAll: "relaxAll gw gh current dirs g = Inr g' \<Longrightarrow> marks g' = marks g"
proof (induction dirs arbitrary: g)
  case Nil
  then show ?case by simp
next
  case (Cons d dirs)
  then show ?case by (auto split: sum.splits dest: marks_relax)
qed

lemma marks_reconstructPath:
  "reconstructPath g pathNode pathLen totalDist = Some r \<Longrightarrow> marks (fst r) = marks g"
proof (induction rule: reconstructPath.raw_induct[rotated, consumes 1])
  case (1 rec g pathNode pathLen totalDist r)
  show ?case
  proof (cases pathNode)
    case None
    with "1.hyps" show ?thesis by auto
  next
    case (Some p)
    with "1.hyps" have "marks (fst r) = marks (updateCell (isPath_update (\<lambda>_. True)) p g)"
      by (auto dest: "1.IH")
    then show ?thesis by (simp add: marks_updateCell)
  qed
qed

lemma marks_step:
  "dijkstra_step gw gh g u v = Some r \<Longrightarrow> iterationGrid r = Some g' \<Longrightarrow> marks g' = marks g"
  by (auto simp: dijkstra_step_def Let_def marks_updateCell iterationGrid_def
           split: list.splits if_splits option.splits sum.splits prod.splits
           dest!: marks_relaxAll marks_reconstructPath)

lemma marks_iterations:
  "dijkstra_iterations n gw gh g u v = Some r \<Longrightarrow> iterationGrid r = Some g' \<Longrightarrow>
   marks g' = marks g"
proof (induction n arbitrary: g u v)
  case 0
  then show ?case by (auto simp: iterationGrid_def)
next
  case (Suc n)
  from Suc.prems(1) obtain g1 u1 v1 where
    st: "dijkstra_step gw gh g u v = Some (Continue g1 u1 v1)" and
    it: "dijkstra_iterations n gw gh g1 u1 v1 = Some r"
    by (auto split: option.splits iteration.splits)
  from marks_step[OF st] have "marks g1 = marks g" by (simp add: iterationGrid_def)
  with Suc.IH[OF it Suc.prems(2)] show ?case by simp
qed

lemma marks_loop:
  "dijkstra_loop gw gh g u v = Some r \<Longrightarrow> iterationGrid r = Some g' \<Longrightarrow> marks g' = marks g"
proof (induction gw gh g u v rule: dijkstra_loop.induct)
  case (1 gw gh g unvisited visitedN)
  from "1.prems"(1) have unf:
    "(case dijkstra_step gw gh g unvisited visitedN of
        Some (Continue a b c) \<Rightarrow> dijkstra_loop gw gh a b c
      | r \<Rightarrow> r) = Some r"
    by (subst (asm) dijkstra_loop.simps)
  show ?case
  proof (cases "dijkstra_step gw gh g unvisited visitedN")
    case None
    with unf show ?thesis by simp
  next
    case (Some it)
    show ?thesis
    proof (cases it)
      case (Continue g1 u1 v1)
      with Some unf have "dijkstra_loop gw gh g1 u1 v1 = Some r" by simp
      from "1.IH"[OF Some Continue this "1.prems"(2)] marks_step[OF Some] Continue
      show ?thesis by (simp add: iterationGrid_def)
    next
      case (Stopped g1 v1)
      with Some unf have "r = it" by simp
      with Some "1.prems"(2) show ?thesis by (auto dest: marks_step)
    next
      case (Reached g1 v1 n1 t1)
      with Some unf have "r = it" by simp
      with Some "1.prems"(2) show ?thesis by (auto dest: marks_step)
    next
      case (Thrown e)
      with Some unf have "r = it" by simp
      with Some "1.prems"(2) show ?thesis by (auto dest: marks_step)
    qed
  qed
qed

lemma finishRun_grid:
  "finishRun s r = Inr s' \<Longrightarrow> iterationGrid r = Some (pf_grid s')"
  by (auto simp: finishRun_def iterationGrid_def split: iteration.splits)

lemma marks_run: "runDijkstra s = Some (Inr s') \<Longrightarrow> marks (pf_grid s') = marks (pf_grid s)"
  by (auto simp: runDijkstra_def Let_def marks_reset split: sum.splits option.splits
           dest!: finishRun_grid marks_loop)

lemma marks_start: "pf_startAlgorithm s = Some (Inr s') \<Longrightarrow> marks (pf_grid s') = marks (pf_grid s)"
  by (auto simp: pf_startAlgorithm_def split: if_splits dest!: marks_run)

subsection \<open>Which cell an iteration selects\<close>









subsection \<open>The run of Dijkstra's algorithm\<close>

lemma nth_list_update_any:
  "(xs[i := v]) ! j = (if j = i \<and> i < length xs then v else xs ! j)"
  by (cases "i < length xs") (auto simp: nth_list_update list_update_beyond)

lemma inGrid_updateCell [simp]: "inGrid (updateCell f p g) q = inGrid g q"
  by (auto simp: inGrid_def updateCell_def nth_list_update_any)

lemma cellAt_updateCell:
  "cellAt (updateCell f p g) q = (if q = p \<and> inGrid g p then f (cellAt g p) else cellAt g q)"
proof (cases "inGrid g p")
  case True
  then show ?thesis
    by (cases p; cases q) (auto simp: cellAt_def updateCell_def inGrid_def nth_list_update)
next
  case False
  then have "updateCell f p g = g"
    by (auto simp: updateCell_def inGrid_def not_less list_update_beyond)
  with False show ?thesis by simp
qed

lemma wfGrid_inGrid: "wfGrid gw gh g \<Longrightarrow> inGrid g p \<longleftrightarrow> fst p < gw \<and> snd p < gh"
  by (auto simp: wfGrid_def inGrid_def)

lemma wfGrid_coords:
  "wfGrid gw gh g \<Longrightarrow> inGrid g p \<Longrightarrow> cell_x (cellAt g p) = fst p \<and> cell_y (cellAt g p) = snd p"
  by (auto simp: wfGrid_def inGrid_def cellAt_def)

lemma wfGrid_updateCell:
  assumes "wfGrid gw gh g" "\<And>c. cell_x (f c) = cell_x c \<and> cell_y (f c) = cell_y c"
  shows "wfGrid gw gh (updateCell f p g)"
proof -
  have ig: "\<And>q. inGrid (updateCell f p g) q \<longleftrightarrow> fst q < gw \<and> snd q < gh"
    using assms(1) by (simp add: wfGrid_inGrid)
  have len: "length (updateCell f p g) = gh" using assms(1) by (simp add: updateCell_def wfGrid_def)
  have rows: "\<And>y. y < gh \<Longrightarrow> length (updateCell f p g ! y) = gw"
    using assms(1) by (auto simp: updateCell_def wfGrid_def nth_list_update_any)
  have "\<And>x y. x < gw \<Longrightarrow> y < gh \<Longrightarrow>
      cell_x (cellAt (updateCell f p g) (x, y)) = x \<and> cell_y (cellAt (updateCell f p g) (x, y)) = y"
    using assms wfGrid_coords[OF assms(1)] wfGrid_inGrid[OF assms(1)]
    by (auto simp: cellAt_updateCell)
  then show ?thesis using len rows by (auto simp: wfGrid_def cellAt_def)
qed









lemma backChain_unique: "backChain g x ps \<Longrightarrow> backChain g x ps' \<Longrightarrow> ps = ps'"
proof (induction arbitrary: ps' rule: backChain.induct)
  case chain_end
  then show ?case by (auto elim: backChain.cases)
next
  case (chain_step p ps)
  from chain_step.prems obtain qs where "ps' = p # qs" "backChain g (previous (cellAt g p)) qs"
    by (auto elim: backChain.cases)
  with chain_step.IH show ?case by simp
qed












lemma inGrid_map [simp]: "inGrid (map (map f) g) p = inGrid g p"
  by (auto simp: inGrid_def)











lemma findStart_total:
  "\<forall>p\<in>set ps. inGrid g p \<Longrightarrow> \<exists>r. findStart g ps = Inr r"
  by (induction ps) auto





subsection \<open>What every state of the path finder satisfies\<close>

lemma initial_wf: "wfGrid (gridWidth m) (gridHeight m) (pf_grid (initializeGrid m rw))"
  by (simp add: wfGrid_def initializeGrid_def initialCell_def)

lemma initial_cell:
  "x < gridWidth m \<Longrightarrow> y < gridHeight m \<Longrightarrow>
   cellAt (pf_grid (initializeGrid m rw)) (x, y) = initialCell m rw y x"
  by (simp add: cellAt_def initializeGrid_def)

lemma initial_inv_pf:
  assumes "\<And>x y. 1 \<le> rw x y \<and> rw x y \<le> 6"
  shows "pfInv (initializeGrid m rw)"
proof -
  have wf: "wfGrid (gridWidth m) (gridHeight m) (pf_grid (initializeGrid m rw))"
    by (rule initial_wf)
  have "\<And>p. inGrid (pf_grid (initializeGrid m rw)) p \<Longrightarrow>
          1 \<le> weight (cellAt (pf_grid (initializeGrid m rw)) p)"
  proof -
    fix p assume "inGrid (pf_grid (initializeGrid m rw)) p"
    with wfGrid_inGrid[OF wf, of p] have "fst p < gridWidth m" "snd p < gridHeight m" by simp_all
    from initial_cell[OF this] assms show "1 \<le> weight (cellAt (pf_grid (initializeGrid m rw)) p)"
      by (simp add: initialCell_def)
  qed
  moreover have "pf_isMobile (initializeGrid m rw) = m" by (simp add: initializeGrid_def)
  ultimately show ?thesis
    using wf by (simp add: pfInv_def initial_start_count initial_end_count)
qed

lemma wfGrid_marks:
  assumes "marks g' = marks g" and wf: "wfGrid gw gh g"
  shows "wfGrid gw gh g'"
proof -
  note mc = marks_cell[OF assms(1)[symmetric]]
  have ig: "\<And>p. inGrid g' p \<longleftrightarrow> fst p < gw \<and> snd p < gh"
    using mc wfGrid_inGrid[OF wf] by simp
  from assms(1) have len: "length g' = gh" using wf unfolding marks_def wfGrid_def by (metis length_map)
  have rows: "\<And>y. y < gh \<Longrightarrow> length (g' ! y) = gw"
  proof -
    fix y assume y: "y < gh"
    from assms(1) have "map layout (g' ! y) = map layout (g ! y)"
      using y len wf unfolding marks_def wfGrid_def by (metis nth_map)
    then have "length (g' ! y) = length (g ! y)" by (metis length_map)
    with wf y show "length (g' ! y) = gw" by (simp add: wfGrid_def)
  qed
  have "\<And>x y. x < gw \<Longrightarrow> y < gh \<Longrightarrow> cell_x (g' ! y ! x) = x \<and> cell_y (g' ! y ! x) = y"
  proof -
    fix x y assume xy: "x < gw" "y < gh"
    then have i: "inGrid g (x, y)" using wfGrid_inGrid[OF wf, of "(x, y)"] by simp
    with mc[of "(x, y)"] have "layout (cellAt g' (x, y)) = layout (cellAt g (x, y))" by simp
    with wfGrid_coords[OF wf i] show "cell_x (g' ! y ! x) = x \<and> cell_y (g' ! y ! x) = y"
      by (simp add: layout_def cellAt_def)
  qed
  with len rows show ?thesis by (simp add: wfGrid_def)
qed

lemma pfInv_marks:
  assumes m: "marks (pf_grid s') = marks (pf_grid s)" and mob: "pf_isMobile s' = pf_isMobile s"
    and inv: "pfInv s"
  shows "pfInv s'"
proof -
  note mc = marks_cell[OF m[symmetric]]
  from inv have wf: "wfGrid (gridWidth (pf_isMobile s)) (gridHeight (pf_isMobile s)) (pf_grid s)"
    and wt: "\<And>p. inGrid (pf_grid s) p \<Longrightarrow> 1 \<le> weight (cellAt (pf_grid s) p)"
    and cnt: "countCells isStart (pf_grid s) = 1" "countCells isEnd (pf_grid s) = 1"
    unfolding pfInv_def by blast+
  have wf': "wfGrid (gridWidth (pf_isMobile s')) (gridHeight (pf_isMobile s')) (pf_grid s')"
    using wfGrid_marks[OF m wf] mob by simp
  have wt': "\<And>p. inGrid (pf_grid s') p \<Longrightarrow> 1 \<le> weight (cellAt (pf_grid s') p)"
  proof -
    fix p assume "inGrid (pf_grid s') p"
    with mc[of p] have i: "inGrid (pf_grid s) p"
      and "layout (cellAt (pf_grid s') p) = layout (cellAt (pf_grid s) p)" by simp_all
    then have "weight (cellAt (pf_grid s') p) = weight (cellAt (pf_grid s) p)"
      by (simp add: layout_def)
    with wt[OF i] show "1 \<le> weight (cellAt (pf_grid s') p)" by simp
  qed
  from countCells_marks[OF m] cnt wf' wt' show ?thesis by (simp add: pfInv_def)
qed

lemma editCell_keeps:
  "cell_x (editCell m c) = cell_x c" "cell_y (editCell m c) = cell_y c"
  "1 \<le> weight c \<Longrightarrow> 1 \<le> weight (editCell m c)"
  by (auto simp: editCell_def Let_def split: draw_mode.splits)

lemma pfInv_click:
  assumes c: "pf_handleCanvasClick s x y = Inr s'" and inv: "pfInv s"
  shows "pfInv s'"
proof (cases "s' = s")
  case True
  with inv show ?thesis by simp
next
  case False
  let ?p = "(nat x, nat y)"
  from c False have s': "s' = s\<lparr> pf_grid := updateCell (editCell (pf_drawMode s)) ?p (pf_grid s),
                                    pf_showInstructions := False \<rparr>"
    by (auto simp: pf_handleCanvasClick_def split: if_splits)
  from inv have wf: "wfGrid (gridWidth (pf_isMobile s)) (gridHeight (pf_isMobile s)) (pf_grid s)"
    and wt: "\<And>p. inGrid (pf_grid s) p \<Longrightarrow> 1 \<le> weight (cellAt (pf_grid s) p)"
    and cnt: "countCells isStart (pf_grid s) = 1" "countCells isEnd (pf_grid s) = 1"
    unfolding pfInv_def by blast+
  have wf': "wfGrid (gridWidth (pf_isMobile s)) (gridHeight (pf_isMobile s))
               (updateCell (editCell (pf_drawMode s)) ?p (pf_grid s))"
    by (rule wfGrid_updateCell[OF wf]) (simp add: editCell_keeps)
  have wt': "\<And>p. inGrid (pf_grid s) p \<Longrightarrow>
               1 \<le> weight (cellAt (updateCell (editCell (pf_drawMode s)) ?p (pf_grid s)) p)"
    using wt editCell_keeps(3) by (auto simp: cellAt_updateCell)
  have cs: "countCells isStart (updateCell (editCell (pf_drawMode s)) ?p (pf_grid s)) = 1"
    using cnt(1) by (simp add: countCells_updateCell)
  have ce: "countCells isEnd (updateCell (editCell (pf_drawMode s)) ?p (pf_grid s)) = 1"
    using cnt(2) by (simp add: countCells_updateCell)
  from wf' wt' cs ce show ?thesis unfolding pfInv_def s' by simp
qed

lemma finishRun_mobile: "finishRun s r = Inr s' \<Longrightarrow> pf_isMobile s' = pf_isMobile s"
  by (auto simp: finishRun_def split: iteration.splits)

lemma run_mobile: "runDijkstra s = Some (Inr s') \<Longrightarrow> pf_isMobile s' = pf_isMobile s"
  by (auto simp: runDijkstra_def Let_def split: sum.splits option.splits dest!: finishRun_mobile)

lemma start_mobile: "pf_startAlgorithm s = Some (Inr s') \<Longrightarrow> pf_isMobile s' = pf_isMobile s"
  by (auto simp: pf_startAlgorithm_def split: if_splits dest!: run_mobile)

lemma reachable_inv: "pf_reachable s \<Longrightarrow> pfInv s"
proof (induction rule: pf_reachable.induct)
  case (pf_init randomWeight isMobile)
  then show ?case by (intro initial_inv_pf)
next
  case (pf_click s x y s')
  from pfInv_click[OF pf_click.hyps(2) pf_click.IH] show ?case .
next
  case (pf_mode s m)
  then show ?case by (simp add: setDrawMode_def pfInv_def)
next
  case (pf_running s newGrid startCell n r s')
  from marks_iterations[OF pf_running.hyps(5) finishRun_grid[OF pf_running.hyps(6)]]
    pf_running.hyps(3)
  have m: "marks (pf_grid s') = marks (pf_grid s)" by (simp add: marks_reset)
  from finishRun_mobile[OF pf_running.hyps(6)] have "pf_isMobile s' = pf_isMobile s" by simp
  from pfInv_marks[OF m this pf_running.IH] show ?case .
next
  case (pf_ran s s')
  from pfInv_marks[OF marks_start[OF pf_ran.hyps(2)] start_mobile[OF pf_ran.hyps(2)] pf_ran.IH]
  show ?case .
qed

lemma reachable_counts:
  "pf_reachable s \<Longrightarrow> countCells isStart (pf_grid s) = 1 \<and> countCells isEnd (pf_grid s) = 1"
  by (drule reachable_inv) (simp add: pfInv_def)

lemma editCell_start_end: "isStart c \<or> isEnd c \<Longrightarrow> editCell m c = c"
  by (auto simp: editCell_def)

lemma updateCell_id: "f (cellAt g p) = cellAt g p \<Longrightarrow> updateCell f p g = g"
  by (simp add: updateCell_def cellAt_def)

text \<open>
  Claim C9. Every state of the path finder (reached from the initial grid by clicks on the
  canvas and on the mode buttons, or passed through or left by a run) has exactly one start cell
  and exactly one end cell; a click on the start or the end cell leaves the whole grid as it is;
  and a click made while a run is active returns the state unchanged.
\<close>

theorem one_start_one_end:
  "(pf_reachable s \<longrightarrow>
      countCells isStart (pf_grid s) = 1 \<and> countCells isEnd (pf_grid s) = 1) \<and>
   (pf_handleCanvasClick s x y = Inr s' \<and> 0 \<le> x \<and> 0 \<le> y \<and>
    inGrid (pf_grid s) (nat x, nat y) \<and>
    (isStart (cellAt (pf_grid s) (nat x, nat y)) \<or> isEnd (cellAt (pf_grid s) (nat x, nat y)))
      \<longrightarrow> pf_grid s' = pf_grid s) \<and>
   (pf_isRunning s \<longrightarrow> pf_handleCanvasClick s x y = Inr s)"
proof (intro conjI impI)
  assume "pf_reachable s"
  then show "countCells isStart (pf_grid s) = 1" by (simp add: reachable_counts)
next
  assume "pf_reachable s"
  then show "countCells isEnd (pf_grid s) = 1" by (simp add: reachable_counts)
next
  assume a: "pf_handleCanvasClick s x y = Inr s' \<and> 0 \<le> x \<and> 0 \<le> y \<and>
    inGrid (pf_grid s) (nat x, nat y) \<and>
    (isStart (cellAt (pf_grid s) (nat x, nat y)) \<or> isEnd (cellAt (pf_grid s) (nat x, nat y)))"
  then have "editCell (pf_drawMode s) (cellAt (pf_grid s) (nat x, nat y))
               = cellAt (pf_grid s) (nat x, nat y)"
    by (simp add: editCell_start_end)
  then have "updateCell (editCell (pf_drawMode s)) (nat x, nat y) (pf_grid s) = pf_grid s"
    by (rule updateCell_id)
  with a show "pf_grid s' = pf_grid s"
    by (auto simp: pf_handleCanvasClick_def split: if_splits)
next
  assume "pf_isRunning s"
  then show "pf_handleCanvasClick s x y = Inr s" by (simp add: pf_handleCanvasClick_def)
qed

text \<open>
  The theorem on the desktop grid with all weights 1: the initial state, a click on its start
  cell \<open>(2, 6)\<close>, and a click while a run is active.
\<close>

theorem one_start_one_end_witness:
  "pf_reachable (initializeGrid False (\<lambda>x y. 1)) \<and>
   countCells isStart (pf_grid (initializeGrid False (\<lambda>x y. 1))) = 1 \<and>
   countCells isEnd (pf_grid (initializeGrid False (\<lambda>x y. 1))) = 1 \<and>
   isStart (cellAt (pf_grid (initializeGrid False (\<lambda>x y. 1))) (2, 6)) \<and>
   pf_handleCanvasClick (initializeGrid False (\<lambda>x y. 1)) 2 6
     = Inr ((initializeGrid False (\<lambda>x y. 1))\<lparr> pf_showInstructions := False \<rparr>) \<and>
   pf_handleCanvasClick ((initializeGrid False (\<lambda>x y. 1))\<lparr> pf_isRunning := True \<rparr>) 3 4
     = Inr ((initializeGrid False (\<lambda>x y. 1))\<lparr> pf_isRunning := True \<rparr>)"
proof -
  let ?s = "initializeGrid False (\<lambda>x y. 1)"
  let ?s' = "pf_handleCanvasClick ?s 2 6"
  have r: "pf_reachable ?s" by (rule pf_init) simp
  have ig: "inGrid (pf_grid ?s) (nat 2, nat 6)"
    by (simp add: initializeGrid_def inGrid_def gridWidth_def gridHeight_def)
  have st: "isStart (cellAt (pf_grid ?s) (nat 2, nat 6))"
    by (simp add: initializeGrid_def cellAt_def initialCell_def gridWidth_def gridHeight_def)
  have cl: "pf_handleCanvasClick ?s 2 6
      = Inr (?s\<lparr> pf_grid := updateCell (editCell (pf_drawMode ?s)) (nat 2, nat 6) (pf_grid ?s),
                  pf_showInstructions := False \<rparr>)"
    using ig by (simp add: pf_handleCanvasClick_def initializeGrid_def gridWidth_def gridHeight_def)
  from one_start_one_end[of ?s 2 6
         "?s\<lparr> pf_grid := updateCell (editCell (pf_drawMode ?s)) (nat 2, nat 6) (pf_grid ?s),
              pf_showInstructions := False \<rparr>"] cl ig st
  have same: "updateCell (editCell (pf_drawMode ?s)) (nat 2, nat 6) (pf_grid ?s) = pf_grid ?s"
    by simp
  have run: "pf_isRunning (?s\<lparr> pf_isRunning := True \<rparr>)" by simp
  from one_start_one_end[of ?s 2 6 ?s] r
  have counts: "countCells isStart (pf_grid ?s) = 1 \<and> countCells isEnd (pf_grid ?s) = 1"
    by blast
  from one_start_one_end[of "?s\<lparr> pf_isRunning := True \<rparr>" 3 4 ?s] run
  have rej: "pf_handleCanvasClick (?s\<lparr> pf_isRunning := True \<rparr>) 3 4
               = Inr (?s\<lparr> pf_isRunning := True \<rparr>)"
    by blast
  from st have st': "isStart (cellAt (pf_grid ?s) (2, 6))" by simp
  from cl same have cl': "pf_handleCanvasClick ?s 2 6 = Inr (?s\<lparr> pf_showInstructions := False \<rparr>)"
    by simp
  from r counts st' cl' rej show ?thesis by blast
qed

subsection \<open>The reported cost on a grid of unit weights\<close>





section \<open>Properties of union-find and Kruskal\<close>

subsection \<open>Two unions from the initial structure\<close>

lemma find_root: "x < length parent \<Longrightarrow> parent ! x = x \<Longrightarrow> find_uf parent x = Some (x, parent)"
  by (subst find_uf.simps) simp

lemma find_child:
  "x < length parent \<Longrightarrow> parent ! x = r \<Longrightarrow> r \<noteq> x \<Longrightarrow> r < length parent \<Longrightarrow> parent ! r = r \<Longrightarrow>
   find_uf parent x = Some (r, parent)"
  by (subst find_uf.simps) (simp add: find_root list_update_same_conv)

lemma init_union:
  "a < n \<Longrightarrow> b < n \<Longrightarrow>
   union_uf (initUnionFind n) a b =
     (if a = b then Some (False, initUnionFind n)
      else Some (True, \<lparr> uf_parent = [0 ..< n][b := a], uf_rank = (replicate n 0)[a := 1] \<rparr>))"
  by (simp add: union_uf_def initUnionFind_def find_root)

lemma second_union:
  assumes "a < n" "b < n" "c < n" "a \<noteq> b"
  shows "union_uf \<lparr> uf_parent = [0 ..< n][b := a], uf_rank = (replicate n 0)[a := 1] \<rparr> b c =
     (if c = a \<or> c = b
      then Some (False, \<lparr> uf_parent = [0 ..< n][b := a], uf_rank = (replicate n 0)[a := 1] \<rparr>)
      else Some (True, \<lparr> uf_parent = [0 ..< n][b := a, c := a], uf_rank = (replicate n 0)[a := 1] \<rparr>))"
proof -
  let ?p = "[0 ..< n][b := a]"
  have fb: "find_uf ?p b = Some (a, ?p)"
    using assms by (intro find_child) auto
  have fa: "find_uf ?p a = Some (a, ?p)"
    using assms by (intro find_root) auto
  have fc: "c \<noteq> a \<Longrightarrow> c \<noteq> b \<Longrightarrow> find_uf ?p c = Some (c, ?p)"
    using assms by (intro find_root) auto
  show ?thesis
    using assms fa fb fc by (auto simp: union_uf_def)
qed

text \<open>
  Claim C8. On the structure initialised with one singleton set per node, for all nodes
  \<open>a\<close>, \<open>b\<close>, \<open>c\<close>: both unions return, and after them \<open>find(a)\<close> and then \<open>find(c)\<close> return
  the same root.
\<close>

theorem union_chain_same_root:
  "a < n \<Longrightarrow> b < n \<Longrightarrow> c < n \<Longrightarrow>
   \<exists>r1 uf1 r2 uf2 root p p'.
      union_uf (initUnionFind n) a b = Some (r1, uf1) \<and>
      union_uf uf1 b c = Some (r2, uf2) \<and>
      find_uf (uf_parent uf2) a = Some (root, p) \<and>
      find_uf p c = Some (root, p')"
proof -
  assume n: "a < n" "b < n" "c < n"
  let ?i = "[0 ..< n]"
  show ?thesis
  proof (cases "a = b")
    case True
    have u1: "union_uf (initUnionFind n) a b = Some (False, initUnionFind n)"
      using init_union[OF n(1) n(2)] True by simp
    show ?thesis
    proof (cases "c = a")
      case c: True
      have u2: "union_uf (initUnionFind n) b c = Some (False, initUnionFind n)"
        using init_union[OF n(2) n(3)] True c by auto
      have f: "find_uf (uf_parent (initUnionFind n)) a = Some (a, ?i)"
        using n by (simp add: initUnionFind_def find_root)
      have f': "find_uf ?i c = Some (a, ?i)"
        using n c by (simp add: find_root)
      from u1 u2 f f' show ?thesis by blast
    next
      case c: False
      let ?p = "?i[c := a]"
      let ?uf = "\<lparr> uf_parent = ?p, uf_rank = (replicate n 0)[b := 1] \<rparr>"
      have u2: "union_uf (initUnionFind n) b c = Some (True, ?uf)"
        using init_union[OF n(2) n(3)] True c by auto
      have f: "find_uf (uf_parent ?uf) a = Some (a, ?p)"
        using n c by (simp add: find_root)
      have f': "find_uf ?p c = Some (a, ?p)"
        using n c by (intro find_child) auto
      from u1 u2 f f' show ?thesis by blast
    qed
  next
    case False
    let ?p = "?i[b := a]"
    let ?uf1 = "\<lparr> uf_parent = ?p, uf_rank = (replicate n 0)[a := 1] \<rparr>"
    have u1: "union_uf (initUnionFind n) a b = Some (True, ?uf1)"
      using init_union[OF n(1) n(2)] False by simp
    show ?thesis
    proof (cases "c = a \<or> c = b")
      case True
      have u2: "union_uf ?uf1 b c = Some (False, ?uf1)"
        using second_union[OF n False] True by auto
      have f: "find_uf (uf_parent ?uf1) a = Some (a, ?p)"
        using n False by (simp add: find_root)
      have f': "find_uf ?p c = Some (a, ?p)"
      proof (cases "c = a")
        case True
        with n False show ?thesis by (simp add: find_root)
      next
        case F: False
        with True have "c = b" by simp
        with n False show ?thesis by (intro find_child) auto
      qed
      from u1 u2 f f' show ?thesis by blast
    next
      case F: False
      let ?q = "?i[b := a, c := a]"
      let ?uf2 = "\<lparr> uf_parent = ?q, uf_rank = (replicate n 0)[a := 1] \<rparr>"
      have u2: "union_uf ?uf1 b c = Some (True, ?uf2)"
        using second_union[OF n False] F by auto
      have f: "find_uf (uf_parent ?uf2) a = Some (a, ?q)"
        using n False F by (simp add: find_root)
      have f': "find_uf ?q c = Some (a, ?q)"
        using n False F by (intro find_child) auto
      from u1 u2 f f' show ?thesis by blast
    qed
  qed
qed

theorem union_chain_same_root_witness:
  "(0::nat) < 3 \<and> (1::nat) < 3 \<and> (2::nat) < 3 \<and>
   (\<exists>r1 uf1 r2 uf2 root p p'.
      union_uf (initUnionFind 3) 0 1 = Some (r1, uf1) \<and>
      union_uf uf1 1 2 = Some (r2, uf2) \<and>
      find_uf (uf_parent uf2) 0 = Some (root, p) \<and>
      find_uf p 2 = Some (root, p'))"
  using union_chain_same_root[of 0 3 1 2] by simp

section \<open>Properties of the greedy coloring\<close>










section \<open>Properties of the maze solver\<close>

subsection \<open>One iteration of a search\<close>






lemma inGrid_visit [simp]: "inGrid (visit c m) q = inGrid m q"
  by (simp add: visit_def)

lemma cellAt_visit:
  "cellAt (visit c m) q = (if q = c \<and> inGrid m c then (cellAt m c)\<lparr> isVisited := True \<rparr> else cellAt m q)"
  by (simp add: visit_def cellAt_updateCell)



lemma visit_layout [simp]:
  "isEnd (cellAt (visit c m) q) = isEnd (cellAt m q)"
  "isWall (cellAt (visit c m) q) = isWall (cellAt m q)"
  "isStart (cellAt (visit c m) q) = isStart (cellAt m q)"
  by (simp_all add: cellAt_visit)



subsection \<open>Every search comes to an end\<close>















subsection \<open>How a run ends\<close>




lemma searchFrom_started [simp]:
  "searchFrom alg (s\<lparr> ms_isRunning := b, ms_showInstructions := i \<rparr>) = searchFrom alg s"
  by (simp add: searchFrom_def)









end
